theory Spec2Isabelle
  imports Complex_Main
begin

section \<open>Double-precision arithmetic\<close>

text \<open>
  The notebook computes with Python's \<open>float\<close> and NumPy's \<open>float64\<close>, both IEEE 754
  binary64. A value of that format is a finite number \<open>m * 2 ^ e\<close> with an integer
  \<open>\<bar>m\<bar> < 2 ^ 53\<close> and \<open>-1074 \<le> e \<le> 971\<close>, an infinity, or not-a-number. A finite value is
  carried as the real number it denotes. The two zeros \<open>+0.0\<close> and \<open>-0.0\<close> are one value
  \<open>Fin 0\<close>: they compare equal in Python and differ only in the sign of a quotient by
  zero, which the code below never forms.
\<close>

datatype double = Fin real | PInf | NInf | NaN

text \<open>
  Each arithmetic operation returns its exact result rounded to the nearest value of the
  format, a tie going to the even significand. \<open>round_half_even\<close> rounds a real to an
  integer in that way. \<open>ulp_exponent x\<close> is the exponent \<open>e\<close> of the grid \<open>m * 2 ^ e\<close> around
  \<open>x\<close>: 53 significant bits for a normal number, the fixed exponent \<open>-1074\<close> for a
  subnormal one, where small results underflow to zero.
\<close>

definition round_half_even :: "real \<Rightarrow> int" where
  "round_half_even y =
     (let f = \<lfloor>y\<rfloor>; d = y - of_int f
      in if d < 1 / 2 then f
         else if 1 / 2 < d then f + 1
         else if even f then f else f + 1)"

definition ulp_exponent :: "real \<Rightarrow> int" where
  "ulp_exponent x = max (\<lfloor>log 2 \<bar>x\<bar>\<rfloor> - 52) (- 1074)"

definition nearest :: "real \<Rightarrow> real" where
  "nearest x =
     (if x = 0 then 0
      else of_int (round_half_even (x / 2 powi ulp_exponent x)) * 2 powi ulp_exponent x)"

text \<open>
  The largest finite value is \<open>2 ^ 1024 - 2 ^ 971\<close>. An exact result of magnitude
  \<open>2 ^ 1024 - 2 ^ 970\<close> or more, halfway to the next power of two, overflows to an
  infinity.
\<close>

definition overflow_threshold :: real where
  "overflow_threshold = 2 ^ 1024 - 2 ^ 970"

definition round_double :: "real \<Rightarrow> double" where
  "round_double x =
     (if overflow_threshold \<le> x then PInf
      else if x \<le> - overflow_threshold then NInf
      else Fin (nearest x))"

text \<open>
  The operators of Python on these values. An operation with a not-a-number operand
  returns not-a-number, and so do \<open>inf - inf\<close>, \<open>0 * inf\<close>, \<open>0 / 0\<close> and \<open>inf / inf\<close>.
  Multiplication and subtraction never raise. For a finite divisor \<open>0\<close>, NumPy returns
  an infinity whose sign depends on the sign of the zero; the model takes the zero as
  positive there.
\<close>

instantiation double :: "{zero,one,plus,uminus,minus,times,divide}"
begin

definition zero_double :: double where
  "zero_double = Fin 0"

definition one_double :: double where
  "one_double = Fin 1"

fun uminus_double :: "double \<Rightarrow> double" where
  "uminus_double (Fin a) = Fin (- a)"
| "uminus_double PInf = NInf"
| "uminus_double NInf = PInf"
| "uminus_double NaN = NaN"

fun plus_double :: "double \<Rightarrow> double \<Rightarrow> double" where
  "plus_double NaN b = NaN"
| "plus_double a NaN = NaN"
| "plus_double (Fin a) (Fin b) = round_double (a + b)"
| "plus_double PInf NInf = NaN"
| "plus_double NInf PInf = NaN"
| "plus_double PInf b = PInf"
| "plus_double a PInf = PInf"
| "plus_double NInf b = NInf"
| "plus_double a NInf = NInf"

definition minus_double :: "double \<Rightarrow> double \<Rightarrow> double" where
  "minus_double a b = a + (- b)"

fun times_double :: "double \<Rightarrow> double \<Rightarrow> double" where
  "times_double NaN b = NaN"
| "times_double a NaN = NaN"
| "times_double (Fin a) (Fin b) = round_double (a * b)"
| "times_double (Fin a) PInf = (if a = 0 then NaN else if 0 < a then PInf else NInf)"
| "times_double (Fin a) NInf = (if a = 0 then NaN else if 0 < a then NInf else PInf)"
| "times_double PInf (Fin b) = (if b = 0 then NaN else if 0 < b then PInf else NInf)"
| "times_double NInf (Fin b) = (if b = 0 then NaN else if 0 < b then NInf else PInf)"
| "times_double PInf PInf = PInf"
| "times_double PInf NInf = NInf"
| "times_double NInf PInf = NInf"
| "times_double NInf NInf = PInf"

fun divide_double :: "double \<Rightarrow> double \<Rightarrow> double" where
  "divide_double NaN b = NaN"
| "divide_double a NaN = NaN"
| "divide_double (Fin a) (Fin b) =
     (if b = 0 then (if a = 0 then NaN else if 0 < a then PInf else NInf)
      else round_double (a / b))"
| "divide_double (Fin a) PInf = Fin 0"
| "divide_double (Fin a) NInf = Fin 0"
| "divide_double PInf (Fin b) = (if 0 \<le> b then PInf else NInf)"
| "divide_double NInf (Fin b) = (if 0 \<le> b then NInf else PInf)"
| "divide_double a b = NaN"

instance ..

end

instantiation double :: inverse
begin

definition inverse_double :: "double \<Rightarrow> double" where
  "inverse_double a = divide (Fin 1) a"

instance ..

end

text \<open>
  \<open>np.exp\<close> on a \<open>float64\<close>, modelled as the correctly rounded exponential: it overflows
  to \<open>inf\<close> and underflows to \<open>0.0\<close>.
\<close>

fun np_exp :: "double \<Rightarrow> double" where
  "np_exp (Fin a) = round_double (exp a)"
| "np_exp PInf = PInf"
| "np_exp NInf = Fin 0"
| "np_exp NaN = NaN"

text \<open>
  \<open>is_finite\<close> is Python's \<open>math.isfinite\<close>. A real number is a double when rounding
  leaves it unchanged.
\<close>

fun is_finite :: "double \<Rightarrow> bool" where
  "is_finite (Fin a) = True"
| "is_finite d = False"

definition is_double :: "real \<Rightarrow> bool" where
  "is_double x \<longleftrightarrow> round_double x = Fin x"

section \<open>The logistic function\<close>

text \<open>
  The notebook's first code cell:
  \<^verbatim>\<open>
  def logistic_function(x, alpha, beta):
      return 1 / (1 + np.exp(-(alpha + beta*x)))
  \<close>
  The integer literals \<open>1\<close> are converted to the double \<open>1.0\<close>.
\<close>

definition logistic_function :: "double \<Rightarrow> double \<Rightarrow> double \<Rightarrow> double" where
  "logistic_function x alpha beta = 1 / (1 + np_exp (- (alpha + beta * x)))"

section \<open>The scalar gradient-descent tracer\<close>

text \<open>
  The general tracer:
  \<^verbatim>\<open>
  def gradient_descent_update(start, learning_rate, gradient_func, steps=10):
      x = start
      path = [start]
      for _ in range(steps):
          grad = gradient_func(x)
          x -= learning_rate * grad
          path.append(x)
      return np.array(path)
  \<close>
  The body of the \<open>for\<close> loop works on the state \<open>(x, path)\<close>. \<open>gd_for\<close> is the loop
  with the number of iterations still to run as its recursion argument; it returns the
  path once no iteration is left. The Python function is written for any scalar type
  that has \<open>-\<close> and \<open>*\<close>, and so is the model. It is used below at the
  type \<open>double\<close>, for the arithmetic of the notebook, and at exact types (a commutative
  ring such as Python's \<open>int\<close> or \<open>Fraction\<close>, the reals). Properties of the shape of
  the path are proved for every scalar type.
\<close>

fun gd_for :: "'a::{minus,times} \<Rightarrow> ('a \<Rightarrow> 'a) \<Rightarrow> nat \<Rightarrow> 'a \<Rightarrow> 'a list \<Rightarrow> 'a list" where
  "gd_for learning_rate gradient_func 0 x path = path"
| "gd_for learning_rate gradient_func (Suc n) x path =
     (let grad = gradient_func x;
          x' = x - learning_rate * grad
      in gd_for learning_rate gradient_func n x' (path @ [x']))"

text \<open>
  \<open>range(steps)\<close> is empty for a negative \<open>steps\<close>, so the loop runs \<open>nat steps\<close> times.
\<close>

definition gradient_descent_update ::
    "'a::{minus,times} \<Rightarrow> 'a \<Rightarrow> ('a \<Rightarrow> 'a) \<Rightarrow> int \<Rightarrow> 'a list" where
  "gradient_descent_update start learning_rate gradient_func steps =
     gd_for learning_rate gradient_func (nat steps) start [start]"


definition steep_gradient :: "'a::{times,numeral} \<Rightarrow> 'a" where
  "steep_gradient x = 2 * x"

text \<open>
  A later cell defines the tracer again, under the same name, with the gradient of
  \<open>x\<^sup>2\<close> written into the loop:
  \<^verbatim>\<open>
  def gradient_descent_update(start, learning_rate, steps=10):
      x = start
      path = [start]
      for _ in range(steps):
          grad = 2 * x  # Derivative of x^2
          x -= learning_rate * grad
          path.append(x)
      return np.array(path)
  \<close>
  It is modelled as \<open>gradient_descent_update2\<close>, with its own loop \<open>gd_for2\<close>.
\<close>

fun gd_for2 :: "'a::{minus,times,numeral} \<Rightarrow> nat \<Rightarrow> 'a \<Rightarrow> 'a list \<Rightarrow> 'a list" where
  "gd_for2 learning_rate 0 x path = path"
| "gd_for2 learning_rate (Suc n) x path =
     (let grad = 2 * x;
          x' = x - learning_rate * grad
      in gd_for2 learning_rate n x' (path @ [x']))"

definition gradient_descent_update2 ::
    "'a::{minus,times,numeral} \<Rightarrow> 'a \<Rightarrow> int \<Rightarrow> 'a list" where
  "gradient_descent_update2 start learning_rate steps =
     gd_for2 learning_rate (nat steps) start [start]"


section \<open>The shape of the loop's result\<close>

lemma gd_for_length: "length (gd_for lr g n x path) = length path + n"
  by (induction n arbitrary: x path) (simp_all add: Let_def)

lemma gd_for_prefix:
  "i < length path \<Longrightarrow> gd_for lr g n x path ! i = path ! i"
  by (induction n arbitrary: x path) (simp_all add: Let_def nth_append)

text \<open>The trajectory as an iterated function: the \<open>i\<close>-th value of \<open>x\<close>.\<close>

lemma gd_for_nth:
  "i \<le> n \<Longrightarrow> path \<noteq> [] \<Longrightarrow> last path = x \<Longrightarrow>
   gd_for lr g n x path ! (length path - 1 + i) = ((\<lambda>y. y - lr * g y) ^^ i) x"
proof (induction n arbitrary: x path i)
  case 0
  then show ?case by (simp add: last_conv_nth)
next
  case (Suc n)
  show ?case
  proof (cases i)
    case 0
    with Suc.prems show ?thesis
      by (simp add: gd_for_prefix last_conv_nth del: gd_for.simps)
  next
    case (Suc j)
    with Suc.prems have j: "j \<le> n" by simp
    let ?f = "\<lambda>y. y - lr * g y"
    from Suc.prems have len: "0 < length path" by simp
    have "gd_for lr g n (?f x) (path @ [?f x]) ! (length (path @ [?f x]) - 1 + j)
          = (?f ^^ j) (?f x)"
      by (rule Suc.IH [OF j]) simp_all
    moreover have "length (path @ [?f x]) - 1 + j = length path - 1 + i"
      using len Suc by simp
    moreover have "(?f ^^ j) (?f x) = (?f ^^ i) x"
      unfolding Suc by (simp only: funpow_Suc_right o_apply)
    ultimately show ?thesis
      by (simp add: Let_def)
  qed
qed

lemma gdu_length:
  "length (gradient_descent_update start lr g steps) = nat steps + 1"
  by (simp add: gradient_descent_update_def gd_for_length)

lemma gdu_nth:
  "i \<le> nat steps \<Longrightarrow>
   gradient_descent_update start lr g steps ! i = ((\<lambda>y. y - lr * g y) ^^ i) start"
  using gd_for_nth [of i "nat steps" "[start]" start lr g]
  by (simp add: gradient_descent_update_def)

lemma gdu_last:
  "last (gradient_descent_update start lr g steps) =
   gradient_descent_update start lr g steps ! nat steps"
proof -
  have "gradient_descent_update start lr g steps \<noteq> []"
    using gdu_length [of start lr g steps] by auto
  then show ?thesis
    by (simp add: last_conv_nth gdu_length)
qed

lemma gd_for2_eq: "gd_for2 lr n x path = gd_for lr steep_gradient n x path"
  by (induction n arbitrary: x path) (simp_all add: Let_def steep_gradient_def)

subsection \<open>A linear gradient\<close>

text \<open>
  For \<open>g(x) = k * x\<close> one update multiplies \<open>x\<close> by \<open>1 - r * k\<close>, in every commutative
  ring.
\<close>

lemma linear_funpow:
  fixes k r x0 :: "'a::comm_ring_1"
  shows "((\<lambda>y. y - r * (k * y)) ^^ i) x0 = x0 * (1 - r * k) ^ i"
  by (induction i) (simp_all add: algebra_simps)

lemma gdu_linear_nth:
  fixes k r x0 :: "'a::comm_ring_1"
  shows "i \<le> nat steps \<Longrightarrow>
    gradient_descent_update x0 r (\<lambda>x. k * x) steps ! i = x0 * (1 - r * k) ^ i"
  by (simp add: gdu_nth linear_funpow)

subsection \<open>The runs of the notebook\<close>


text \<open>The path for the learning rate \<open>0.95\<close>, computed step by step.\<close>

lemma path_lr_095:
  "gradient_descent_update2 (-8::real) 0.95 10 =
   [-8, 7.2, -6.48, 5.832, -5.2488, 4.72392, -4.251528, 3.8263752, -3.44373768,
    3.099363912, -2.7894275208]"
  by (simp add: gradient_descent_update2_def eval_nat_numeral Let_def)

subsection \<open>A loop that stays where it is\<close>

lemma gd_for_fixed_point:
  "x - lr * g x = x \<Longrightarrow> gd_for lr g n x (replicate m x) = replicate (m + n) x"
proof (induction n arbitrary: m)
  case 0
  show ?case by simp
next
  case (Suc n)
  have "replicate m x @ [x] = replicate (Suc m) x"
    by (simp add: replicate_append_same)
  with Suc.IH [OF Suc.prems, of "Suc m"] Suc.prems show ?case
    by (simp add: Let_def)
qed

lemma gdu_fixed_point:
  "start - lr * g start = start \<Longrightarrow>
   gradient_descent_update start lr g steps = replicate (nat steps + 1) start"
  using gd_for_fixed_point [of start lr g "nat steps" 1]
  by (simp add: gradient_descent_update_def)

section \<open>Rounding\<close>

lemma rne_cases: "round_half_even y = \<lfloor>y\<rfloor> \<or> (round_half_even y = \<lfloor>y\<rfloor> + 1 \<and> of_int \<lfloor>y\<rfloor> < y)"
  by (auto simp: round_half_even_def Let_def)

lemma rne_le: "y \<le> of_int n \<Longrightarrow> round_half_even y \<le> n"
proof -
  assume y: "y \<le> of_int n"
  then have f: "\<lfloor>y\<rfloor> \<le> n" by (simp add: floor_le_iff)
  from rne_cases [of y] show ?thesis
  proof
    assume "round_half_even y = \<lfloor>y\<rfloor>"
    with f show ?thesis by simp
  next
    assume a: "round_half_even y = \<lfloor>y\<rfloor> + 1 \<and> of_int \<lfloor>y\<rfloor> < y"
    with y have "(of_int \<lfloor>y\<rfloor> :: real) < of_int n" by linarith
    then have "\<lfloor>y\<rfloor> < n" by simp
    with a show ?thesis by simp
  qed
qed

lemma rne_ge: "of_int n \<le> y \<Longrightarrow> n \<le> round_half_even y"
proof -
  assume "of_int n \<le> y"
  then have "n \<le> \<lfloor>y\<rfloor>" by (simp add: le_floor_iff)
  with rne_cases [of y] show ?thesis by auto
qed

lemma rne_of_int: "round_half_even (of_int n) = n"
  using rne_le [of "of_int n" n] rne_ge [of n "of_int n"] by simp

lemma ulp_exponent_pos: "0 < (2::real) powi ulp_exponent x"
  by simp

lemma nearest_nonneg: "0 \<le> x \<Longrightarrow> 0 \<le> nearest x"
proof -
  assume x: "0 \<le> x"
  then have "of_int 0 \<le> x / 2 powi ulp_exponent x" by simp
  then have "0 \<le> round_half_even (x / 2 powi ulp_exponent x)" by (rule rne_ge)
  then show ?thesis by (simp add: nearest_def)
qed

lemma ulp_exponent_le: "x \<noteq> 0 \<Longrightarrow> \<bar>x\<bar> \<le> 1 \<Longrightarrow> ulp_exponent x \<le> - 52"
proof -
  assume "x \<noteq> 0" "\<bar>x\<bar> \<le> 1"
  then have "log 2 \<bar>x\<bar> \<le> 0" by simp
  then have "\<lfloor>log 2 \<bar>x\<bar>\<rfloor> \<le> 0" by (simp add: floor_le_iff)
  then show ?thesis by (simp add: ulp_exponent_def)
qed

lemma nearest_le_one: "x \<le> 1 \<Longrightarrow> nearest x \<le> 1"
proof (cases "0 < x")
  case False
  then have "x / 2 powi ulp_exponent x \<le> of_int 0" by (simp add: divide_nonpos_pos)
  then have "round_half_even (x / 2 powi ulp_exponent x) \<le> 0" by (rule rne_le)
  then have "of_int (round_half_even (x / 2 powi ulp_exponent x)) * 2 powi ulp_exponent x \<le> (0::real)"
    by (simp add: mult_le_0_iff)
  then show ?thesis by (simp add: nearest_def)
next
  case True
  assume x1: "x \<le> 1"
  let ?e = "ulp_exponent x"
  from True x1 have e: "?e \<le> - 52" by (intro ulp_exponent_le) simp_all
  then have pw: "(2::real) powi ?e = 1 / 2 ^ nat (- ?e)"
    by (simp add: power_int_def power_one_over)
  have "x / 2 powi ?e = x * 2 ^ nat (- ?e)" by (simp add: pw)
  also have "\<dots> \<le> 1 * 2 ^ nat (- ?e)" using x1 by (intro mult_right_mono) simp_all
  also have "\<dots> = of_int (2 ^ nat (- ?e))" by simp
  finally have "round_half_even (x / 2 powi ?e) \<le> 2 ^ nat (- ?e)" by (rule rne_le)
  then have "(of_int (round_half_even (x / 2 powi ?e)) :: real) \<le> of_int (2 ^ nat (- ?e))"
    by (simp only: of_int_le_iff)
  then have "of_int (round_half_even (x / 2 powi ?e)) * 2 powi ?e \<le> (of_int (2 ^ nat (- ?e)) :: real) * 2 powi ?e"
    by (intro mult_right_mono) simp_all
  also have "\<dots> = 1" by (simp add: pw)
  finally show ?thesis using True by (simp add: nearest_def)
qed

lemma nearest_ge_one: "1 \<le> x \<Longrightarrow> 1 \<le> nearest x"
proof -
  assume x1: "1 \<le> x"
  let ?E = "\<lfloor>log 2 \<bar>x\<bar>\<rfloor>"
  from x1 have "0 \<le> log 2 \<bar>x\<bar>" by simp
  then have E0: "0 \<le> ?E" by simp
  then have e: "ulp_exponent x = ?E - 52" by (simp add: ulp_exponent_def)
  have "2 powr (of_int ?E) \<le> 2 powr (log 2 \<bar>x\<bar>)"
    by (intro powr_mono) simp_all
  with x1 have "2 powr (of_int ?E) \<le> x" by simp
  then have Ex: "2 powi ?E \<le> x" by (simp add: powr_real_of_int')
  have split: "(2::real) powi ?E = 2 ^ 52 * 2 powi (?E - 52)"
    using power_int_add [of "2::real" 52 "?E - 52"] by simp
  have "(of_int (2 ^ 52) :: real) = (2 ^ 52 * 2 powi (?E - 52)) / 2 powi (?E - 52)"
    by simp
  also have "\<dots> \<le> x / 2 powi (?E - 52)"
    using Ex split by (intro divide_right_mono) simp_all
  finally have "2 ^ 52 \<le> round_half_even (x / 2 powi (?E - 52))" by (rule rne_ge)
  then have "(of_int (2 ^ 52) :: real) \<le> of_int (round_half_even (x / 2 powi (?E - 52)))"
    by (simp only: of_int_le_iff)
  then have "(of_int (2 ^ 52) :: real) * 2 powi (?E - 52)
      \<le> of_int (round_half_even (x / 2 powi (?E - 52))) * 2 powi (?E - 52)"
    by (intro mult_right_mono) simp_all
  then have "(2::real) powi ?E
      \<le> of_int (round_half_even (x / 2 powi (?E - 52))) * 2 powi (?E - 52)"
    by (simp add: split)
  moreover have "1 \<le> (2::real) powi ?E" using E0 by simp
  ultimately have "(1::real) \<le> of_int (round_half_even (x / 2 powi (?E - 52))) * 2 powi (?E - 52)"
    by (rule order_trans [rotated])
  with x1 e show ?thesis by (simp add: nearest_def)
qed

lemma threshold_pos: "0 < overflow_threshold"
  by (simp add: overflow_threshold_def)

lemma round_double_finite:
  "- overflow_threshold < x \<Longrightarrow> x < overflow_threshold \<Longrightarrow> round_double x = Fin (nearest x)"
  by (simp add: round_double_def)

lemma round_double_zero: "round_double 0 = Fin 0"
  using threshold_pos by (simp add: round_double_def nearest_def)

lemma round_double_not_NaN: "round_double x \<noteq> NaN"
  by (simp add: round_double_def)

lemma round_double_nonneg:
  "0 \<le> x \<Longrightarrow> round_double x = PInf \<or> (\<exists>v. round_double x = Fin v \<and> 0 \<le> v)"
  using threshold_pos by (auto simp: round_double_def nearest_nonneg)

lemma round_double_ge_one:
  "1 \<le> x \<Longrightarrow> round_double x = PInf \<or> (\<exists>v. round_double x = Fin v \<and> 1 \<le> v)"
  using threshold_pos by (auto simp: round_double_def nearest_ge_one)

lemma round_double_unit:
  "0 \<le> x \<Longrightarrow> x \<le> 1 \<Longrightarrow> \<exists>v. round_double x = Fin v \<and> 0 \<le> v \<and> v \<le> 1"
proof -
  assume x: "0 \<le> x" "x \<le> 1"
  have "1 < overflow_threshold" by (simp add: overflow_threshold_def)
  with x have "round_double x = Fin (nearest x)"
    by (intro round_double_finite) simp_all
  with x show ?thesis by (simp add: nearest_nonneg nearest_le_one)
qed

lemma nearest_normal:
  assumes m: "2 ^ 52 \<le> \<bar>m\<bar>" "\<bar>m\<bar> < 2 ^ 53" and e: "- 1074 \<le> e"
  shows "nearest (of_int m * 2 powi e) = of_int m * 2 powi e"
proof -
  let ?x = "of_int m * 2 powi e :: real"
  from m have m0: "m \<noteq> 0" by auto
  then have x0: "?x \<noteq> 0" by simp
  have ax: "\<bar>?x\<bar> = of_int \<bar>m\<bar> * 2 powi e" by (simp add: abs_mult)
  have lo: "2 powi (52 + e) \<le> \<bar>?x\<bar>"
  proof -
    have "(2::real) powi (52 + e) = 2 ^ 52 * 2 powi e"
      using power_int_add [of "2::real" 52 e] by simp
    also have "\<dots> = of_int (2 ^ 52) * 2 powi e" by simp
    also have "\<dots> \<le> of_int \<bar>m\<bar> * 2 powi e"
      using m(1) by (intro mult_right_mono) (simp_all only: of_int_le_iff zero_le_power_int zero_le_numeral)
    finally show ?thesis by (simp only: ax)
  qed
  have hi: "\<bar>?x\<bar> < 2 powi (52 + e + 1)"
  proof -
    have "of_int \<bar>m\<bar> * 2 powi e < (of_int (2 ^ 53) :: real) * 2 powi e"
      using m(2) by (intro mult_strict_right_mono) (simp_all only: of_int_less_iff zero_less_power_int zero_less_numeral)
    also have "\<dots> = 2 ^ 53 * 2 powi e" by simp
    also have "\<dots> = 2 powi (53 + e)"
      using power_int_add [of "2::real" 53 e] by simp
    finally show ?thesis by (simp add: ax add.commute add.left_commute)
  qed
  have c1: "(2::real) powr (52 + real_of_int e) = 2 powi (52 + e)"
    using powr_real_of_int' [of "2::real" "52 + e"] by simp
  have c2: "(2::real) powr (53 + real_of_int e) = 2 powi (53 + e)"
    using powr_real_of_int' [of "2::real" "53 + e"] by simp
  have "\<lfloor>log 2 \<bar>?x\<bar>\<rfloor> = 52 + e"
    using x0 lo hi by (subst floor_log_eq_powr_iff) (simp_all add: c1 c2)
  then have "ulp_exponent ?x = e"
    using e by (simp add: ulp_exponent_def)
  then show ?thesis
    using x0 by (simp add: nearest_def rne_of_int)
qed

lemma round_double_normal:
  assumes "2 ^ 52 \<le> \<bar>m\<bar>" "\<bar>m\<bar> < 2 ^ 53" "- 1074 \<le> e"
    and "\<bar>of_int m * 2 powi e\<bar> < overflow_threshold"
  shows "round_double (of_int m * 2 powi e) = Fin (of_int m * 2 powi e)"
  using assms(4) nearest_normal [OF assms(1-3)]
  by (simp add: round_double_def abs_less_iff)

lemma nearest_underflow:
  assumes "0 \<le> x" "x < 2 powi (- 1075)"
  shows "nearest x = 0"
proof (cases "x = 0")
  case True
  then show ?thesis by (simp add: nearest_def)
next
  case False
  with assms have x: "0 < x" by simp
  have "(2::real) powr (- 1075) = 2 powi (- 1075)"
    using powr_real_of_int' [of "2::real" "- 1075"] by simp
  with assms(2) have "x < 2 powr (- 1075)" by simp
  then have "log 2 x < - 1075"
    using x by (subst log_less_iff) simp_all
  then have "\<lfloor>log 2 \<bar>x\<bar>\<rfloor> < - 1075 + 1"
    using x by (simp add: floor_less_iff)
  then have e: "ulp_exponent x = - 1074"
    unfolding ulp_exponent_def by linarith
  have "x / 2 powi (- 1074) < 2 powi (- 1075) / 2 powi (- 1074)"
    using assms(2) by (intro divide_strict_right_mono) simp_all
  also have "\<dots> = 1 / 2"
    using power_int_diff [of "2::real" "- 1075" "- 1074"] by simp
  finally have y: "x / 2 powi (- 1074) < 1 / 2" .
  moreover have y0: "0 \<le> x / 2 powi (- 1074)" using x by simp
  ultimately have "\<lfloor>x / 2 powi (- 1074)\<rfloor> = 0"
    by (intro floor_unique) simp_all
  with y have "round_half_even (x / 2 powi (- 1074)) = 0"
    by (simp add: round_half_even_def Let_def)
  with e show ?thesis by (simp add: nearest_def)
qed

lemma exp_ge_power_two: "2 ^ n \<le> exp (real n)"
proof -
  have "(2::real) \<le> exp 1" using exp_ge_add_one_self [of 1] by simp
  then have "(2::real) ^ n \<le> exp 1 ^ n" by (intro power_mono) simp_all
  also have "\<dots> = exp (real n)" using exp_of_nat_mult [of n "1::real"] by simp
  finally show ?thesis .
qed

lemma round_double_exp_overflow: "round_double (exp 2048) = PInf"
proof -
  have "overflow_threshold \<le> 2 ^ 2048" by (simp add: overflow_threshold_def)
  also have "\<dots> \<le> exp (real 2048)" by (rule exp_ge_power_two)
  finally show ?thesis by (simp add: round_double_def)
qed

lemma round_double_exp_underflow: "round_double (exp (- 2048)) = Fin 0"
proof -
  have "(2::real) ^ 2048 \<le> exp (real 2048)" by (rule exp_ge_power_two)
  then have "exp (- 2048) \<le> 1 / (2::real) ^ 2048"
    by (simp add: exp_minus inverse_eq_divide divide_simps)
  also have "\<dots> < 2 powi (- 1075)" by (simp add: power_int_minus)
  finally have small: "exp (- 2048) < (2::real) powi (- 1075)" .
  then have "nearest (exp (- 2048)) = 0" by (intro nearest_underflow) simp_all
  moreover have "exp (- 2048) < overflow_threshold"
  proof -
    have "(2::real) powi (- 1075) < overflow_threshold"
      by (simp add: overflow_threshold_def power_int_minus)
    with small show ?thesis by simp
  qed
  moreover have "- overflow_threshold < exp (- 2048)"
    using threshold_pos exp_gt_zero [of "- 2048 :: real"] by linarith
  ultimately show ?thesis by (simp add: round_double_def)
qed

lemma round_double_one: "round_double 1 = Fin 1"
  using round_double_normal [of "2 ^ 52" "- 52"]
  by (simp add: overflow_threshold_def power_int_minus)

lemma round_double_2048: "round_double 2048 = Fin 2048"
  using round_double_normal [of "2 ^ 52" "- 41"]
  by (simp add: overflow_threshold_def power_int_minus)

lemma round_double_neg_2048: "round_double (- 2048) = Fin (- 2048)"
  using round_double_normal [of "- (2 ^ 52)" "- 41"]
  by (simp add: overflow_threshold_def power_int_minus)

subsection \<open>Particular doubles and steps\<close>

lemma is_double_normal:
  assumes "2 ^ 52 \<le> \<bar>m\<bar>" "\<bar>m\<bar> < 2 ^ 53" "- 1074 \<le> e"
    and "\<bar>of_int m * 2 powi e\<bar> < overflow_threshold"
  shows "is_double (of_int m * 2 powi e)"
  unfolding is_double_def using assms by (rule round_double_normal)

lemma is_double_1: "is_double 1"
  by (simp add: is_double_def round_double_one)

lemma is_double_2: "is_double 2"
  using is_double_normal [of "2 ^ 52" "- 51"]
  by (simp add: overflow_threshold_def power_int_minus)

lemma is_double_8: "is_double 8"
  using is_double_normal [of "2 ^ 52" "- 49"]
  by (simp add: overflow_threshold_def power_int_minus)

lemma round_double_16: "round_double 16 = Fin 16"
  using round_double_normal [of "2 ^ 52" "- 48"]
  by (simp add: overflow_threshold_def power_int_minus)

lemma is_double_2_pow_1023: "is_double (2 ^ 1023)"
  using is_double_normal [of "2 ^ 52" 971]
  by (simp add: overflow_threshold_def)

lemma is_double_2_pow_minus_55: "is_double (1 / 2 ^ 55)"
  using is_double_normal [of "2 ^ 52" "- 107"]
  by (simp add: overflow_threshold_def power_int_minus)

lemma round_double_2_pow_1024: "round_double (2 ^ 1024) = PInf"
  by (simp add: round_double_def overflow_threshold_def)

text \<open>One part in \<open>2 ^ 55\<close> taken from 1 is rounded away.\<close>

lemma round_double_below_one: "round_double (1 - 1 / 2 ^ 55) = Fin 1"
proof -
  let ?x = "1 - 1 / 2 ^ 55 :: real"
  have "\<lfloor>log 2 \<bar>?x\<bar>\<rfloor> = - 1"
    by (subst floor_log_eq_powr_iff) (simp_all add: powr_minus)
  then have e: "ulp_exponent ?x = - 53"
    by (simp add: ulp_exponent_def)
  have y: "?x / 2 powi (- 53) = 2 ^ 53 - 1 / 4"
    by (simp add: power_int_minus)
  have "\<lfloor>2 ^ 53 - 1 / 4 :: real\<rfloor> = 2 ^ 53 - 1"
    by (rule floor_unique) simp_all
  then have "round_half_even (2 ^ 53 - 1 / 4) = 2 ^ 53"
    by (simp add: round_half_even_def Let_def)
  with e y have "nearest ?x = 1"
    by (simp add: nearest_def power_int_minus)
  then show ?thesis
    by (simp add: round_double_def overflow_threshold_def)
qed

lemma rounded_away_step: "Fin 1 - Fin (1 / 2 ^ 55) * (Fin 1 * Fin 1) = Fin 1"
  using is_double_2_pow_minus_55 round_double_below_one
  by (simp add: round_double_one is_double_def minus_double_def)

lemma zero_rate_step:
  assumes "is_double x0" and "is_finite (g (Fin x0))"
  shows "Fin x0 - 0 * g (Fin x0) = Fin x0"
proof -
  from assms(2) obtain y where y: "g (Fin x0) = Fin y"
    by (cases "g (Fin x0)") simp_all
  have "0 * g (Fin x0) = Fin 0"
    by (simp add: y zero_double_def round_double_zero)
  with assms(1) show ?thesis
    by (simp add: minus_double_def is_double_def)
qed

section \<open>The claims\<close>

text \<open>
  C6: with \<open>steps = 0\<close> the tracer returns exactly the one-element sequence \<open>[x0]\<close>,
  for every start \<open>x0\<close>, learning rate and gradient function.
\<close>

theorem steps_zero_singleton:
  "gradient_descent_update x0 lr g 0 = [x0]"
  by (simp add: gradient_descent_update_def)

text \<open>
  C10: the second tracer, with the gradient \<open>2 * x\<close> written into its loop, returns for
  every start, learning rate and step count exactly what the general tracer returns for
  the gradient function \<open>steep_gradient\<close>.
\<close>

theorem second_tracer_is_general_with_steep_gradient:
  "gradient_descent_update2 start lr steps =
   gradient_descent_update start lr steep_gradient steps"
  by (simp add: gradient_descent_update2_def gradient_descent_update_def gd_for2_eq)

text \<open>
  C1: for every start, learning rate, gradient function and non-negative step count, the
  tracer returns a sequence of length \<open>steps + 1\<close> whose element 0 is the start and
  whose element \<open>i\<close>, for every \<open>i\<close> from 1 to \<open>steps\<close>, is element \<open>i - 1\<close> minus the
  learning rate times the gradient at element \<open>i - 1\<close>.
\<close>

theorem tracer_trajectory:
  assumes "0 \<le> steps"
  shows "int (length (gradient_descent_update start lr g steps)) = steps + 1
       \<and> gradient_descent_update start lr g steps ! 0 = start
       \<and> (\<forall>i. 1 \<le> i \<and> int i \<le> steps \<longrightarrow>
            gradient_descent_update start lr g steps ! i =
              gradient_descent_update start lr g steps ! (i - 1)
                - lr * g (gradient_descent_update start lr g steps ! (i - 1)))"
proof (intro conjI allI impI)
  show "int (length (gradient_descent_update start lr g steps)) = steps + 1"
    using assms by (simp add: gdu_length)
  show "gradient_descent_update start lr g steps ! 0 = start"
    using gdu_nth [of 0 steps start lr g] by simp
next
  fix i :: nat
  assume "1 \<le> i \<and> int i \<le> steps"
  then obtain j where i: "i = Suc j" and le: "Suc j \<le> nat steps"
    by (cases i) auto
  from le have "j \<le> nat steps" by simp
  then show "gradient_descent_update start lr g steps ! i =
              gradient_descent_update start lr g steps ! (i - 1)
                - lr * g (gradient_descent_update start lr g steps ! (i - 1))"
    using le by (simp add: i gdu_nth)
qed

theorem tracer_trajectory_witness:
  "(0::int) \<le> 2
   \<and> int (length (gradient_descent_update (8::real) 0.1 steep_gradient 2)) = 2 + 1
   \<and> gradient_descent_update (8::real) 0.1 steep_gradient 2 ! 0 = 8
   \<and> gradient_descent_update (8::real) 0.1 steep_gradient 2 ! 2 =
       gradient_descent_update (8::real) 0.1 steep_gradient 2 ! (2 - 1)
         - 0.1 * steep_gradient (gradient_descent_update (8::real) 0.1 steep_gradient 2 ! (2 - 1))"
proof -
  have h: "(0::int) \<le> 2" by simp
  note t = tracer_trajectory [OF h, of "8::real" "0.1" steep_gradient]
  from t have a: "int (length (gradient_descent_update (8::real) 0.1 steep_gradient 2)) = 2 + 1"
    by (rule conjunct1)
  from t have b: "gradient_descent_update (8::real) 0.1 steep_gradient 2 ! 0 = 8"
    by (rule conjunct1 [OF conjunct2])
  from t have "\<forall>i. 1 \<le> i \<and> int i \<le> 2 \<longrightarrow>
            gradient_descent_update (8::real) 0.1 steep_gradient 2 ! i =
              gradient_descent_update (8::real) 0.1 steep_gradient 2 ! (i - 1)
                - 0.1 * steep_gradient (gradient_descent_update (8::real) 0.1 steep_gradient 2 ! (i - 1))"
    by (rule conjunct2 [OF conjunct2])
  then have c: "gradient_descent_update (8::real) 0.1 steep_gradient 2 ! 2 =
       gradient_descent_update (8::real) 0.1 steep_gradient 2 ! (2 - 1)
         - 0.1 * steep_gradient (gradient_descent_update (8::real) 0.1 steep_gradient 2 ! (2 - 1))"
    by (rule allE [of _ 2]) simp
  from h a b c show ?thesis by (intro conjI)
qed

text \<open>
  C2, as amended: for scalars with exact arithmetic (a commutative ring: Python's \<open>int\<close>
  and \<open>Fraction\<close>, the reals) and the linear gradient \<open>g(x) = k * x\<close>, element \<open>i\<close> of
  the output is \<open>x0 * (1 - r * k) ^ i\<close> for every index \<open>i\<close> from 0 to the step count.
\<close>

theorem linear_gradient_closed_form:
  fixes k r x0 :: "'a::comm_ring_1"
  assumes "int i \<le> steps"
  shows "gradient_descent_update x0 r (\<lambda>x. k * x) steps ! i = x0 * (1 - r * k) ^ i"
  using assms by (intro gdu_linear_nth) simp

theorem linear_gradient_closed_form_witness:
  "int 2 \<le> 3 \<and>
   gradient_descent_update (8::int) 2 (\<lambda>x. 3 * x) 3 ! 2 = 8 * (1 - 2 * 3) ^ 2"
proof -
  have h: "int 2 \<le> 3" by simp
  from h linear_gradient_closed_form [OF h, of "8::int" 2 3] show ?thesis
    by (intro conjI)
qed

text \<open>
  C2 as stated, for the doubles of the notebook, fails. With \<open>x0 = 2.0\<close>, \<open>r = 1.0\<close> and
  \<open>k = 2 ^ 1023\<close> the product \<open>k * x0\<close> overflows and element 1 is \<open>-inf\<close>, not
  \<open>2 * (1 - 2 ^ 1023)\<close>. With \<open>x0 = 1.0\<close>, \<open>r = 2 ^ -55\<close> and \<open>k = 1.0\<close> the update is
  rounded away and element 1 is \<open>1.0\<close>, not \<open>1 - 2 ^ -55\<close>.
\<close>

theorem closed_form_fails_in_double:
  "is_double 2 \<and> is_double 1 \<and> is_double (2 ^ 1023) \<and> is_double (1 / 2 ^ 55)
   \<and> gradient_descent_update (Fin 2) (Fin 1) (\<lambda>x. Fin (2 ^ 1023) * x) 1 ! 1 = NInf
   \<and> gradient_descent_update (Fin 2) (Fin 1) (\<lambda>x. Fin (2 ^ 1023) * x) 1 ! 1
       \<noteq> Fin (2 * (1 - 1 * 2 ^ 1023) ^ 1)
   \<and> gradient_descent_update (Fin 1) (Fin (1 / 2 ^ 55)) (\<lambda>x. Fin 1 * x) 1 ! 1 = Fin 1
   \<and> gradient_descent_update (Fin 1) (Fin (1 / 2 ^ 55)) (\<lambda>x. Fin 1 * x) 1 ! 1
       \<noteq> Fin (1 * (1 - 1 / 2 ^ 55 * 1) ^ 1)"
proof -
  have "Fin (2 ^ 1023) * Fin 2 = PInf"
    using round_double_2_pow_1024 by simp
  then have a: "gradient_descent_update (Fin 2) (Fin 1) (\<lambda>x. Fin (2 ^ 1023) * x) 1 ! 1 = NInf"
    by (simp add: gradient_descent_update_def minus_double_def Let_def)
  have "Fin 1 - Fin (1 / 2 ^ 55) * (Fin 1 * Fin 1) = Fin 1"
    by (rule rounded_away_step)
  then have b: "gradient_descent_update (Fin 1) (Fin (1 / 2 ^ 55)) (\<lambda>x. Fin 1 * x) 1 ! 1 = Fin 1"
    by (simp add: gradient_descent_update_def Let_def)
  from a b is_double_2 is_double_1 is_double_2_pow_1023 is_double_2_pow_minus_55
  show ?thesis by simp
qed

text \<open>
  C3, as amended: in exact arithmetic over the reals, for every start \<open>x0\<close> and every
  \<open>k\<close> and learning rate \<open>r\<close> with \<open>0 < r * k < 2\<close>, the tracer run with \<open>g(x) = k * x\<close>
  gives a sequence whose absolute values never increase from one element to the next,
  and the absolute value of the final element tends to 0 as the step count grows: for
  every \<open>\<epsilon> > 0\<close> there is a step count from which on it is below \<open>\<epsilon>\<close>.
\<close>

theorem linear_gradient_converges:
  fixes k r x0 :: real
  assumes "0 < r * k" and "r * k < 2"
  shows "(\<forall>steps i. int i < steps \<longrightarrow>
            \<bar>gradient_descent_update x0 r (\<lambda>x. k * x) steps ! Suc i\<bar>
              \<le> \<bar>gradient_descent_update x0 r (\<lambda>x. k * x) steps ! i\<bar>)
       \<and> (\<forall>\<epsilon>>0. \<exists>N. \<forall>steps\<ge>N.
            \<bar>last (gradient_descent_update x0 r (\<lambda>x. k * x) steps)\<bar> < \<epsilon>)"
proof (intro conjI allI impI)
  let ?c = "1 - r * k"
  from assms have c: "\<bar>?c\<bar> < 1" by (simp add: abs_less_iff)
  {
    fix steps :: int and i :: nat
    assume i: "int i < steps"
    then have "Suc i \<le> nat steps" "i \<le> nat steps" by simp_all
    then have "\<bar>gradient_descent_update x0 r (\<lambda>x. k * x) steps ! Suc i\<bar> = \<bar>x0\<bar> * \<bar>?c\<bar> ^ i * \<bar>?c\<bar>"
      and "\<bar>gradient_descent_update x0 r (\<lambda>x. k * x) steps ! i\<bar> = \<bar>x0\<bar> * \<bar>?c\<bar> ^ i"
      by (simp_all add: gdu_linear_nth abs_mult power_abs)
    moreover have "\<bar>x0\<bar> * \<bar>?c\<bar> ^ i * \<bar>?c\<bar> \<le> \<bar>x0\<bar> * \<bar>?c\<bar> ^ i * 1"
      using c by (intro mult_left_mono) simp_all
    ultimately show "\<bar>gradient_descent_update x0 r (\<lambda>x. k * x) steps ! Suc i\<bar>
              \<le> \<bar>gradient_descent_update x0 r (\<lambda>x. k * x) steps ! i\<bar>"
      by simp
  }
  {
    fix \<epsilon> :: real
    assume eps: "0 < \<epsilon>"
    from c have "(\<lambda>n. ?c ^ n) \<longlonglongrightarrow> 0"
      by (rule LIMSEQ_abs_realpow_zero2)
    then have "(\<lambda>n. x0 * ?c ^ n) \<longlonglongrightarrow> 0"
      by (rule tendsto_mult_right_zero)
    from LIMSEQ_D [OF this eps] obtain n0 where n0: "\<forall>n\<ge>n0. \<bar>x0 * ?c ^ n\<bar> < \<epsilon>"
      by auto
    have "\<forall>steps\<ge>int n0. \<bar>last (gradient_descent_update x0 r (\<lambda>x. k * x) steps)\<bar> < \<epsilon>"
    proof (intro allI impI)
      fix steps :: int
      assume "int n0 \<le> steps"
      then have "n0 \<le> nat steps" by simp
      with n0 have "\<bar>x0 * ?c ^ nat steps\<bar> < \<epsilon>" by blast
      then show "\<bar>last (gradient_descent_update x0 r (\<lambda>x. k * x) steps)\<bar> < \<epsilon>"
        by (simp add: gdu_last gdu_linear_nth)
    qed
    then show "\<exists>N. \<forall>steps\<ge>N. \<bar>last (gradient_descent_update x0 r (\<lambda>x. k * x) steps)\<bar> < \<epsilon>"
      by blast
  }
qed

theorem linear_gradient_converges_witness:
  "(0::real) < 0.95 * 2 \<and> (0.95::real) * 2 < 2
   \<and> \<bar>gradient_descent_update (-8::real) 0.95 (\<lambda>x. 2 * x) 10 ! Suc 3\<bar>
       \<le> \<bar>gradient_descent_update (-8::real) 0.95 (\<lambda>x. 2 * x) 10 ! 3\<bar>
   \<and> (0::real) < 1
   \<and> (\<exists>N. \<forall>steps\<ge>N. \<bar>last (gradient_descent_update (-8::real) 0.95 (\<lambda>x. 2 * x) steps)\<bar> < 1)"
proof -
  have h1: "(0::real) < 0.95 * 2" and h2: "(0.95::real) * 2 < 2" by simp_all
  note t = linear_gradient_converges [OF h1 h2, of "-8"]
  have i: "int 3 < 10" by simp
  from t have "\<forall>steps i. int i < steps \<longrightarrow>
            \<bar>gradient_descent_update (-8::real) 0.95 (\<lambda>x. 2 * x) steps ! Suc i\<bar>
              \<le> \<bar>gradient_descent_update (-8::real) 0.95 (\<lambda>x. 2 * x) steps ! i\<bar>"
    by (rule conjunct1)
  with i have a: "\<bar>gradient_descent_update (-8::real) 0.95 (\<lambda>x. 2 * x) 10 ! Suc 3\<bar>
       \<le> \<bar>gradient_descent_update (-8::real) 0.95 (\<lambda>x. 2 * x) 10 ! 3\<bar>"
    by blast
  have e: "(0::real) < 1" by simp
  from t have "\<forall>\<epsilon>>0. \<exists>N. \<forall>steps\<ge>N.
            \<bar>last (gradient_descent_update (-8::real) 0.95 (\<lambda>x. 2 * x) steps)\<bar> < \<epsilon>"
    by (rule conjunct2)
  with e have b: "\<exists>N. \<forall>steps\<ge>N. \<bar>last (gradient_descent_update (-8::real) 0.95 (\<lambda>x. 2 * x) steps)\<bar> < 1"
    by blast
  from h1 h2 a e b show ?thesis by (intro conjI)
qed

text \<open>
  C3 as stated, for the doubles of the notebook, fails. With \<open>x0 = 1.0\<close>, \<open>k = 1.0\<close> and
  the learning rate \<open>r = 2 ^ -55\<close>, so that \<open>0 < r * k < 2\<close>, every update is rounded
  away: the final element is \<open>1.0\<close> for every step count and does not tend to 0.
\<close>

theorem small_rate_never_converges_in_double:
  "(0::real) < 1 / 2 ^ 55 * 1 \<and> (1::real) / 2 ^ 55 * 1 < 2
   \<and> is_double 1 \<and> is_double (1 / 2 ^ 55)
   \<and> (\<forall>steps. last (gradient_descent_update (Fin 1) (Fin (1 / 2 ^ 55)) (\<lambda>x. Fin 1 * x) steps)
         = Fin 1)"
proof -
  have "Fin 1 - Fin (1 / 2 ^ 55) * (Fin 1 * Fin 1) = Fin 1"
    by (rule rounded_away_step)
  then have "gradient_descent_update (Fin 1) (Fin (1 / 2 ^ 55)) (\<lambda>x. Fin 1 * x) steps
      = replicate (nat steps + 1) (Fin 1)" for steps
    by (rule gdu_fixed_point)
  then have "\<forall>steps. last (gradient_descent_update (Fin 1) (Fin (1 / 2 ^ 55)) (\<lambda>x. Fin 1 * x) steps)
         = Fin 1"
    by simp
  with is_double_1 is_double_2_pow_minus_55 show ?thesis by simp
qed

text \<open>
  C4: the run of the notebook with start \<open>-8\<close>, learning rate \<open>0.95\<close>, gradient \<open>2 * x\<close> and
  10 steps. In the output each element and its successor have opposite signs (their
  product is negative), each successor is strictly smaller in absolute value, and the
  values themselves are not monotonically decreasing.
\<close>

theorem learning_rate_095_oscillates:
  "successively (\<lambda>a b. a * b < 0) (gradient_descent_update2 (-8::real) 0.95 10)
   \<and> successively (\<lambda>a b. \<bar>b\<bar> < \<bar>a\<bar>) (gradient_descent_update2 (-8::real) 0.95 10)
   \<and> \<not> successively (\<lambda>a b. b \<le> a) (gradient_descent_update2 (-8::real) 0.95 10)"
  unfolding path_lr_095 by simp


text \<open>
  C7, as amended: with learning rate 0, a finite start \<open>x0\<close> and a gradient function
  whose value at \<open>x0\<close> is finite, every element of the output equals \<open>x0\<close>, for every
  step count: the output is \<open>steps + 1\<close> copies of \<open>x0\<close>.
\<close>

theorem zero_learning_rate_no_movement:
  assumes "is_double x0" and "is_finite (g (Fin x0))"
  shows "gradient_descent_update (Fin x0) 0 g steps = replicate (nat steps + 1) (Fin x0)
       \<and> set (gradient_descent_update (Fin x0) 0 g steps) = {Fin x0}"
proof -
  have "gradient_descent_update (Fin x0) 0 g steps = replicate (nat steps + 1) (Fin x0)"
    by (rule gdu_fixed_point) (rule zero_rate_step [of x0 g, OF assms])
  then show ?thesis by auto
qed

theorem zero_learning_rate_no_movement_witness:
  "is_double 8 \<and> is_finite (Fin 2 * Fin 8)
   \<and> gradient_descent_update (Fin 8) 0 (\<lambda>x. Fin 2 * x) 3 = replicate (nat 3 + 1) (Fin 8)
   \<and> set (gradient_descent_update (Fin 8) 0 (\<lambda>x. Fin 2 * x) 3) = {Fin 8}"
proof -
  have a: "is_double 8" by (rule is_double_8)
  have b: "is_finite (Fin 2 * Fin 8)" by (simp add: round_double_16)
  from zero_learning_rate_no_movement [of 8 "\<lambda>x. Fin 2 * x" 3, OF a b] a b
  show ?thesis by (intro conjI) simp_all
qed

text \<open>
  C7 as stated, for every start and gradient function, fails. From the finite start
  \<open>2 ^ 1023\<close> the gradient \<open>2 * x\<close> overflows to \<open>inf\<close>, \<open>0 * inf\<close> is not-a-number, and
  element 1 of the output is not-a-number instead of the start.
\<close>

theorem zero_learning_rate_overflow_counterexample:
  "is_double (2 ^ 1023)
   \<and> gradient_descent_update (Fin (2 ^ 1023)) 0 (\<lambda>x. Fin 2 * x) 1 = [Fin (2 ^ 1023), NaN]
   \<and> gradient_descent_update (Fin (2 ^ 1023)) 0 (\<lambda>x. Fin 2 * x) 1 ! 1 \<noteq> Fin (2 ^ 1023)"
proof -
  have "Fin 2 * Fin (2 ^ 1023) = PInf"
    using round_double_2_pow_1024 by simp
  then have "gradient_descent_update (Fin (2 ^ 1023)) 0 (\<lambda>x. Fin 2 * x) 1 = [Fin (2 ^ 1023), NaN]"
    by (simp add: gradient_descent_update_def zero_double_def minus_double_def Let_def)
  with is_double_2_pow_1023 show ?thesis by simp
qed

text \<open>
  C9, as amended: for all finite \<open>x\<close>, \<open>alpha\<close> and \<open>beta\<close> the logistic function returns a
  finite value in the closed interval from 0 to 1.
\<close>

theorem logistic_function_in_closed_unit_interval:
  "\<exists>v. logistic_function (Fin x) (Fin alpha) (Fin beta) = Fin v \<and> 0 \<le> v \<and> v \<le> 1"
proof -
  define t where "t = - (Fin alpha + Fin beta * Fin x)"
  have "Fin beta * Fin x \<noteq> NaN" by (simp add: round_double_not_NaN)
  then have "Fin alpha + Fin beta * Fin x \<noteq> NaN"
    by (cases "Fin beta * Fin x") (simp_all add: round_double_not_NaN)
  then have t: "t \<noteq> NaN"
    unfolding t_def by (cases "Fin alpha + Fin beta * Fin x") simp_all
  have ex: "np_exp t = PInf \<or> (\<exists>v. np_exp t = Fin v \<and> 0 \<le> v)"
  proof (cases t)
    case (Fin a)
    then show ?thesis using round_double_nonneg [of "exp a"] by simp
  qed (use t in simp_all)
  have den: "1 + np_exp t = PInf \<or> (\<exists>w. 1 + np_exp t = Fin w \<and> 1 \<le> w)"
    using ex
  proof
    assume "np_exp t = PInf"
    then show ?thesis by (simp add: one_double_def)
  next
    assume "\<exists>v. np_exp t = Fin v \<and> 0 \<le> v"
    then obtain v where v: "np_exp t = Fin v" "0 \<le> v" by blast
    then show ?thesis
      using round_double_ge_one [of "1 + v"] by (simp add: one_double_def)
  qed
  have "\<exists>v. 1 / (1 + np_exp t) = Fin v \<and> 0 \<le> v \<and> v \<le> 1"
    using den
  proof
    assume "1 + np_exp t = PInf"
    then show ?thesis by (simp add: one_double_def)
  next
    assume "\<exists>w. 1 + np_exp t = Fin w \<and> 1 \<le> w"
    then obtain w where w: "1 + np_exp t = Fin w" "1 \<le> w" by blast
    then have "0 \<le> 1 / w" "1 / w \<le> 1" by simp_all
    from round_double_unit [OF this] w show ?thesis
      by (simp add: one_double_def)
  qed
  then show ?thesis by (simp add: logistic_function_def t_def)
qed

text \<open>
  C9 as stated, with the open interval, fails: both ends are returned. At
  \<open>alpha + beta * x = -2048\<close> the exponential overflows to \<open>inf\<close> and the result is \<open>0.0\<close>;
  at \<open>2048\<close> it underflows to \<open>0.0\<close> and the result is \<open>1.0\<close>.
\<close>

theorem logistic_function_reaches_endpoints:
  "logistic_function (Fin (- 2048)) (Fin 0) (Fin 1) = Fin 0
   \<and> logistic_function (Fin 2048) (Fin 0) (Fin 1) = Fin 1"
  by (simp add: logistic_function_def one_double_def round_double_2048 round_double_neg_2048
      round_double_exp_overflow round_double_exp_underflow round_double_one)

end
